theory Spec2Isabelle
  imports Main
begin

section \<open>Data model (types/api.ts)\<close>

text \<open>
  The discriminant of a \<open>SheetAction\<close>: the string literal union of the field
  \<open>action\<close>, one constructor per literal, in the order of the source.
\<close>

datatype ActionTag =
  Filter | Sort | Highlight | SetValue | InsertColumn | CreateSheet |
  SetFormula | SetValues | AutoFillDown | FormatRange | ReadRange

text \<open>
  \<open>SheetAction\<close> is one flat object whose fields other than the discriminant are all
  optional; an absent field is \<open>None\<close>. The discriminant field \<open>action\<close> is called
  \<open>action_tag\<close> here, \<open>range\<close> is \<open>range_ref\<close> and \<open>value\<close> is \<open>cell_value\<close>.
  The presentation fields (column, criteria, ascending, color, after, header, bold,
  background, fontColor) are read by none of the functions below and are left out.
\<close>

record SheetAction =
  action_tag :: ActionTag
  name :: "string option"
  sheet :: "string option"
  cell :: "string option"
  range_ref :: "string option"
  cell_value :: "string option"
  formula :: "string option"
  cell_values :: "string list list option"
  sourceCell :: "string option"
  lastRow :: "int option"
  fillDown :: "bool option"

text \<open>
  The runtime status that \<open>App\<close> writes into the field \<open>_status\<close> of a step:
  the strings "pending", "executing", "done" and "error".
\<close>

datatype StepStatus = Pending | Executing | Done | Error

text \<open>
  \<open>StepAction\<close>, together with the two runtime fields \<open>_status\<close> and \<open>_result\<close>
  of \<open>StepWithStatus\<close> (\<open>st_status\<close>, \<open>st_result\<close>), absent on the steps of a
  response.
\<close>

record StepAction =
  step :: int
  description :: string
  action :: SheetAction
  step_formula :: "string option"
  about :: "string option"
  st_status :: "StepStatus option"
  st_result :: "string option"

text \<open>
  \<open>UndoInfo\<close>: the entries of \<open>cellsToClear\<close> are the objects
  \<open>{sheet, range}\<close>, written as pairs (sheet, range).
\<close>

record UndoInfo =
  sheetsToDelete :: "string list"
  cellsToClear :: "(string \<times> string) list"

datatype Role = User | Assistant

text \<open>
  \<open>Message\<close>, with the fields that the execution and undo handlers read or write.
  \<open>undone\<close> is optional in the source and only ever tested for truthiness, so an
  absent flag is \<open>False\<close>.
\<close>

record Message =
  msgId :: string
  role :: Role
  content :: string
  steps :: "StepAction list option"
  undoInfo :: "UndoInfo option"
  undone :: bool
  clarificationAnswered :: bool

section \<open>The reversal log: buildUndoInfo\<close>

text \<open>JavaScript truthiness of an optional string: present and not empty.\<close>

definition truthy :: "string option \<Rightarrow> bool" where
  "truthy s = (case s of None \<Rightarrow> False | Some v \<Rightarrow> v \<noteq> [])"

text \<open>
  The \<open>for\<close> loop of \<open>buildUndoInfo\<close>, with its two arrays as accumulators.
  No field of the step other than \<open>action\<close> is read.
\<close>

fun buildUndoLoop ::
  "StepAction list \<Rightarrow> string list \<Rightarrow> (string \<times> string) list \<Rightarrow> UndoInfo" where
  "buildUndoLoop [] sd cc = \<lparr>sheetsToDelete = sd, cellsToClear = cc\<rparr>"
| "buildUndoLoop (st # rest) sd cc =
     (let a = action st in
      if action_tag a = CreateSheet \<and> truthy (name a) then
        buildUndoLoop rest (sd @ [the (name a)]) cc
      else if action_tag a = SetFormula \<and> truthy (sheet a) \<and> truthy (cell a) then
        (if the (sheet a) \<notin> set sd
         then buildUndoLoop rest sd (cc @ [(the (sheet a), the (cell a))])
         else buildUndoLoop rest sd cc)
      else if action_tag a = SetValues \<and> truthy (sheet a) \<and> truthy (range_ref a) then
        (if the (sheet a) \<notin> set sd
         then buildUndoLoop rest sd (cc @ [(the (sheet a), the (range_ref a))])
         else buildUndoLoop rest sd cc)
      else buildUndoLoop rest sd cc)"

definition buildUndoInfo :: "StepAction list \<Rightarrow> UndoInfo" where
  "buildUndoInfo sts = buildUndoLoop sts [] []"

section \<open>The script bridge\<close>

text \<open>
  One call through \<open>google.script.run\<close> ends in one of three ways: the success
  handler fires with the string the script returned, the failure handler fires with an
  error whose message is given, or the chain throws before the call is made (the
  global \<open>google\<close> does not exist outside Google Sheets) and the \<open>catch\<close> branch
  runs. The live document is the state \<open>'d\<close> that the bridge reads and changes.
  A call that is never answered leaves its caller suspended for ever; the model covers
  the calls that are answered.
\<close>

datatype BridgeReply = Returned string | Rejected string | Unreachable

type_synonym 'd bridge = "'d \<Rightarrow> SheetAction \<Rightarrow> BridgeReply \<times> 'd"

definition executeSheetAction :: "'d bridge \<Rightarrow> 'd \<Rightarrow> SheetAction \<Rightarrow> string \<times> 'd" where
  "executeSheetAction gas d a =
     (case gas d a of
        (Returned r, d') \<Rightarrow> (r, d')
      | (Rejected m, d') \<Rightarrow> (''Action failed: '' @ m, d')
      | (Unreachable, d') \<Rightarrow> (''Not running in Google Sheets'', d'))"

definition executeStepAction :: "'d bridge \<Rightarrow> 'd \<Rightarrow> SheetAction \<Rightarrow> string \<times> 'd" where
  "executeStepAction gas d a = executeSheetAction gas d a"

definition undoSheetActionsGAS :: "BridgeReply \<Rightarrow> string" where
  "undoSheetActionsGAS reply =
     (case reply of
        Returned r \<Rightarrow> r
      | Rejected m \<Rightarrow> ''Undo failed: '' @ m
      | Unreachable \<Rightarrow> ''Not running in Google Sheets'')"

section \<open>Sequential execution: executeSteps\<close>

text \<open>
  \<open>executeSteps\<close> is asynchronous and awaits each action. The model is one run of it
  from start to end, with no other handler changing the messages in between, and with the
  messages as explicit state: each \<open>setMessages\<close> call is the map it applies. The
  analytics call and the delay of 300 ms between steps touch neither the messages nor
  the document and are left out.
\<close>

text \<open>\<open>String.prototype.startsWith\<close>.\<close>

definition startsWith :: "string \<Rightarrow> string \<Rightarrow> bool" where
  "startsWith s p = (take (length p) s = p)"

text \<open>\<open>Array.prototype.map\<close> with the callback that also takes the index.\<close>

definition mapIdx :: "('a \<Rightarrow> nat \<Rightarrow> 'b) \<Rightarrow> 'a list \<Rightarrow> 'b list" where
  "mapIdx f xs = map (\<lambda>(x, idx). f x idx) (zip xs [0..<length xs])"

text \<open>
  The callback that both \<open>setMessages\<close> calls of the loop map over the messages:
  a message with another id, or without steps, is returned as it is; otherwise the
  step at index \<open>i\<close> is replaced by \<open>f\<close> of it (the object spread).
\<close>

definition updateStepOf ::
  "string \<Rightarrow> nat \<Rightarrow> (StepAction \<Rightarrow> StepAction) \<Rightarrow> Message \<Rightarrow> Message" where
  "updateStepOf messageId i f msg =
     (if msgId msg \<noteq> messageId \<or> steps msg = None then msg
      else msg\<lparr>steps := Some (mapIdx (\<lambda>s idx. if idx = i then f s else s) (the (steps msg)))\<rparr>)"

text \<open>
  The body of the loop for the step at index \<open>i\<close>: mark it executing, run its action,
  classify the returned string, store status and result. It returns the messages, the
  document and the status.
\<close>

definition executeOne ::
  "'d bridge \<Rightarrow> string \<Rightarrow> nat \<Rightarrow> StepAction \<Rightarrow> Message list \<Rightarrow> 'd
     \<Rightarrow> Message list \<times> 'd \<times> StepStatus" where
  "executeOne gas messageId i st msgs d =
     (let msgs1 = map (updateStepOf messageId i (\<lambda>s. s\<lparr>st_status := Some Executing\<rparr>)) msgs;
          (result, d') = executeStepAction gas d (action st);
          status = (if startsWith result ''Error'' then Error else Done);
          msgs2 = map (updateStepOf messageId i
                    (\<lambda>s. s\<lparr>st_status := Some status, st_result := Some result\<rparr>)) msgs1
      in (msgs2, d', status))"

text \<open>
  The loop over \<open>steps\<close>, from index \<open>i\<close> on: the first argument holds the steps not
  yet visited. \<open>sc\<close> and \<open>ec\<close> are \<open>successCount\<close> and \<open>errorCount\<close>. The loop leaves
  at the first error (\<open>break\<close>).
\<close>

fun executeLoop ::
  "'d bridge \<Rightarrow> string \<Rightarrow> StepAction list \<Rightarrow> nat \<Rightarrow> Message list \<Rightarrow> 'd \<Rightarrow> nat \<Rightarrow> nat
     \<Rightarrow> Message list \<times> 'd \<times> nat \<times> nat" where
  "executeLoop gas messageId [] i msgs d sc ec = (msgs, d, sc, ec)"
| "executeLoop gas messageId (st # rest) i msgs d sc ec =
     (case executeOne gas messageId i st msgs d of
        (msgs2, d', status) \<Rightarrow>
          if status = Error then (msgs2, d', sc, Suc ec)
          else executeLoop gas messageId rest (Suc i) msgs2 d' (Suc sc) ec)"

text \<open>
  \<open>executeSteps\<close>: the loop, then the undo information of \<open>steps\<close> (the parameter, the
  steps of the response), attached to the message when it is not empty.
\<close>

definition executeSteps ::
  "'d bridge \<Rightarrow> StepAction list \<Rightarrow> string \<Rightarrow> Message list \<Rightarrow> 'd
     \<Rightarrow> Message list \<times> 'd \<times> nat \<times> nat" where
  "executeSteps gas sts messageId msgs d =
     (case executeLoop gas messageId sts 0 msgs d 0 0 of
        (msgs', d', sc, ec) \<Rightarrow>
          (let info = buildUndoInfo sts in
           if length (sheetsToDelete info) > 0 \<or> length (cellsToClear info) > 0
           then (map (\<lambda>msg. if msgId msg = messageId then msg\<lparr>undoInfo := Some info\<rparr> else msg) msgs',
                 d', sc, ec)
           else (msgs', d', sc, ec)))"

text \<open>
  The part of a \<open>ChatResponse\<close> that the plan branch of \<open>handleSend\<close> reads, and that
  branch: taken when the response has steps and at least one of them, it appends the
  assistant message, every step pending, and executes the steps of the response.
\<close>

record ChatResponse =
  message_id :: string
  res_content :: string
  res_steps :: "StepAction list option"

definition hasSteps :: "ChatResponse \<Rightarrow> bool" where
  "hasSteps res = (case res_steps res of None \<Rightarrow> False | Some sts \<Rightarrow> length sts > 0)"

definition assistantMessage :: "ChatResponse \<Rightarrow> Message" where
  "assistantMessage res =
     \<lparr>msgId = message_id res, role = Assistant, content = res_content res,
      steps = Some (map (\<lambda>s. s\<lparr>st_status := Some Pending\<rparr>) (the (res_steps res))),
      undoInfo = None, undone = False, clarificationAnswered = False\<rparr>"

definition handleSendPlan ::
  "'d bridge \<Rightarrow> ChatResponse \<Rightarrow> Message list \<Rightarrow> 'd \<Rightarrow> Message list \<times> 'd \<times> nat \<times> nat" where
  "handleSendPlan gas res msgs d =
     executeSteps gas (the (res_steps res)) (message_id res) (msgs @ [assistantMessage res]) d"

text \<open>
  The condition under which \<open>MessageArea\<close> renders the Undo button of a message
  (\<open>onUndo\<close> is always passed by \<open>App\<close>).
\<close>

definition undoButtonShown :: "Message \<Rightarrow> bool" where
  "undoButtonShown msg =
     (role msg = Assistant \<and> (case steps msg of None \<Rightarrow> False | Some sts \<Rightarrow> length sts > 0)
      \<and> undoInfo msg \<noteq> None \<and> \<not> undone msg)"

section \<open>Undo: handleUndo\<close>

text \<open>
  \<open>handleUndo\<close> is asynchronous: it checks the message, calls
  \<open>undoSheetActionsGAS\<close> and is suspended until the bridge answers; then it marks the
  message undone and is suspended again until \<open>getAllSheets\<close> answers; then it appends
  the confirmation message. While it is suspended the user interface handles further
  events, so each of the three segments is one event of a step function over the state:
  the messages, the suspended runs of the handler, and the log of the calls of
  \<open>undoSheetActionsGAS\<close> made so far (message id and argument). The handler reads the
  messages of the last render; the model takes the current ones (every change of the
  state is rendered before the next event). A call that throws at once, the bridge not
  being reachable, is answered by a reply event like the others: the model allows more
  orders of events than the code, so what holds for every sequence of events of the model
  holds for the code.
\<close>

text \<open>
  A suspended run of the handler waits for the reply to its undo call (it keeps the
  message id), or for the sheets list (it keeps the result string of the undo call), or
  has finished. The events are a click on the Undo control of a message, the reply of
  the bridge to the undo call of the run at an index, and the reply to its
  \<open>getAllSheets\<close> call, which comes with the fresh id of the confirmation message.
  The analytics call and the sheets list itself are left out.
\<close>

datatype UndoTask = AwaitingUndo string | AwaitingSheets string | Finished

record UndoState =
  messages :: "Message list"
  tasks :: "UndoTask list"
  undoCalls :: "(string \<times> UndoInfo) list"

datatype UndoEvent =
  UndoClicked string
  | UndoReplied nat BridgeReply
  | SheetsReplied nat string

definition undoMessage :: "string \<Rightarrow> string \<Rightarrow> Message" where
  "undoMessage newId result =
     \<lparr>msgId = newId, role = Assistant, content = ''Undo complete: '' @ result,
      steps = None, undoInfo = None, undone = False, clarificationAnswered = False\<rparr>"

fun handleUndo :: "UndoEvent \<Rightarrow> UndoState \<Rightarrow> UndoState" where
  "handleUndo (UndoClicked messageId) s =
     (case find (\<lambda>m. msgId m = messageId) (messages s) of
        None \<Rightarrow> s
      | Some msg \<Rightarrow>
          (case undoInfo msg of
             None \<Rightarrow> s
           | Some info \<Rightarrow>
               if undone msg then s
               else s\<lparr>tasks := tasks s @ [AwaitingUndo messageId],
                      undoCalls := undoCalls s @ [(messageId, info)]\<rparr>))"
| "handleUndo (UndoReplied k reply) s =
     (if k < length (tasks s) then
        (case tasks s ! k of
           AwaitingUndo messageId \<Rightarrow>
             s\<lparr>messages := map (\<lambda>m. if msgId m = messageId then m\<lparr>undone := True\<rparr> else m)
                              (messages s),
               tasks := (tasks s)[k := AwaitingSheets (undoSheetActionsGAS reply)]\<rparr>
         | _ \<Rightarrow> s)
      else s)"
| "handleUndo (SheetsReplied k newId) s =
     (if k < length (tasks s) then
        (case tasks s ! k of
           AwaitingSheets result \<Rightarrow>
             s\<lparr>messages := messages s @ [undoMessage newId result],
               tasks := (tasks s)[k := Finished]\<rparr>
         | _ \<Rightarrow> s)
      else s)"

text \<open>A sequence of events, handled in order.\<close>

definition runUndo :: "UndoEvent list \<Rightarrow> UndoState \<Rightarrow> UndoState" where
  "runUndo evs s = foldl (\<lambda>s e. handleUndo e s) s evs"

text \<open>The calls of \<open>undoSheetActionsGAS\<close> made for one message.\<close>

definition callsFor :: "string \<Rightarrow> UndoState \<Rightarrow> (string \<times> UndoInfo) list" where
  "callsFor messageId s = filter (\<lambda>c. fst c = messageId) (undoCalls s)"

section \<open>Vocabulary of the statements\<close>

text \<open>
  The two guards of \<open>buildUndoInfo\<close> as predicates on an action: a step that creates
  a sheet (its name is present and not empty), and a step that is a tracked write, with
  the entry (sheet, location) it would append.
\<close>

definition isCreate :: "SheetAction \<Rightarrow> bool" where
  "isCreate a = (action_tag a = CreateSheet \<and> truthy (name a))"

definition trackedWrite :: "SheetAction \<Rightarrow> (string \<times> string) option" where
  "trackedWrite a =
     (if action_tag a = SetFormula \<and> truthy (sheet a) \<and> truthy (cell a)
        then Some (the (sheet a), the (cell a))
      else if action_tag a = SetValues \<and> truthy (sheet a) \<and> truthy (range_ref a)
        then Some (the (sheet a), the (range_ref a))
      else None)"

text \<open>The names of the sheets that the steps of a list create, in step order.\<close>

definition createdNames :: "StepAction list \<Rightarrow> string list" where
  "createdNames sts = map (\<lambda>s. the (name (action s))) (filter (\<lambda>s. isCreate (action s)) sts)"

text \<open>
  The step at index \<open>i\<close> is a tracked write into a sheet that is neither in \<open>pre\<close> nor
  created by a step before index \<open>i\<close>.
\<close>

definition keptWrite :: "string set \<Rightarrow> StepAction list \<Rightarrow> nat \<Rightarrow> bool" where
  "keptWrite pre sts i =
     (case trackedWrite (action (sts ! i)) of
        None \<Rightarrow> False
      | Some e \<Rightarrow> fst e \<notin> pre \<union> set (createdNames (take i sts)))"

text \<open>
  The step at index \<open>i\<close> is a tracked write into a sheet that a step after index \<open>i\<close>
  creates.
\<close>

definition createdLater :: "StepAction list \<Rightarrow> nat \<Rightarrow> bool" where
  "createdLater sts i =
     (case trackedWrite (action (sts ! i)) of
        None \<Rightarrow> False
      | Some e \<Rightarrow> fst e \<in> set (createdNames (drop (Suc i) sts)))"

text \<open>
  No step list entry that \<open>buildUndoInfo\<close> appends to \<open>cellsToClear\<close> names a sheet that
  a later step creates: the plan creates a sheet before it writes into it.
\<close>

definition createdBeforeWritten :: "StepAction list \<Rightarrow> bool" where
  "createdBeforeWritten sts =
     list_all (\<lambda>i. \<not> (keptWrite {} sts i \<and> createdLater sts i)) [0..<length sts]"

text \<open>The final statuses of a run: all done, or halted at index \<open>k\<close>.\<close>

definition allDone :: "StepAction list \<Rightarrow> bool" where
  "allDone ss = (\<forall>s \<in> set ss. st_status s = Some Done)"

definition haltedAt :: "nat \<Rightarrow> StepAction list \<Rightarrow> bool" where
  "haltedAt k ss =
     (k < length ss \<and> st_status (ss ! k) = Some Error
      \<and> (\<forall>j < k. st_status (ss ! j) = Some Done)
      \<and> (\<forall>j < length ss. k < j \<longrightarrow> st_status (ss ! j) = Some Pending))"

text \<open>
  The document after the bridge has been called on the actions of a list, in order, and
  on nothing else.
\<close>

fun docAfter :: "'d bridge \<Rightarrow> 'd \<Rightarrow> SheetAction list \<Rightarrow> 'd" where
  "docAfter gas d [] = d"
| "docAfter gas d (a # as) = docAfter gas (snd (gas d a)) as"

definition classify :: "string \<Rightarrow> StepStatus" where
  "classify r = (if startsWith r ''Error'' then Error else Done)"

text \<open>The undo information that \<open>executeSteps\<close> attaches, if any.\<close>

definition attachedUndo :: "StepAction list \<Rightarrow> UndoInfo option" where
  "attachedUndo sts =
     (let info = buildUndoInfo sts in
      if sheetsToDelete info \<noteq> [] \<or> cellsToClear info \<noteq> [] then Some info else None)"

text \<open>
  The guard of \<open>handleUndo\<close> is closed for a message id: the message that \<open>find\<close>
  returns for it is undone.
\<close>

definition gated :: "string \<Rightarrow> UndoState \<Rightarrow> bool" where
  "gated mid s = (case find (\<lambda>m. msgId m = mid) (messages s) of None \<Rightarrow> False | Some m \<Rightarrow> undone m)"

section \<open>Example plans\<close>

definition emptyAction :: "ActionTag \<Rightarrow> SheetAction" where
  "emptyAction t =
     \<lparr>action_tag = t, name = None, sheet = None, cell = None, range_ref = None,
      cell_value = None, formula = None, cell_values = None, sourceCell = None,
      lastRow = None, fillDown = None\<rparr>"

definition mkStep :: "int \<Rightarrow> SheetAction \<Rightarrow> StepAction" where
  "mkStep n a =
     \<lparr>step = n, description = [], action = a, step_formula = None, about = None,
      st_status = None, st_result = None\<rparr>"

definition createSheet :: "string \<Rightarrow> SheetAction" where
  "createSheet n = (emptyAction CreateSheet)\<lparr>name := Some n\<rparr>"

definition setFormula :: "string \<Rightarrow> string \<Rightarrow> string \<Rightarrow> SheetAction" where
  "setFormula sh c f = (emptyAction SetFormula)\<lparr>sheet := Some sh, cell := Some c, formula := Some f\<rparr>"

definition setValues :: "string \<Rightarrow> string \<Rightarrow> string list list \<Rightarrow> SheetAction" where
  "setValues sh r vs =
     (emptyAction SetValues)\<lparr>sheet := Some sh, range_ref := Some r, cell_values := Some vs\<rparr>"

definition setValue :: "string \<Rightarrow> string \<Rightarrow> string \<Rightarrow> SheetAction" where
  "setValue sh c v =
     (emptyAction SetValue)\<lparr>sheet := Some sh, cell := Some c, cell_value := Some v\<rparr>"

definition autoFillDown :: "string \<Rightarrow> string \<Rightarrow> string \<Rightarrow> int \<Rightarrow> SheetAction" where
  "autoFillDown sh r src n =
     (emptyAction AutoFillDown)\<lparr>sheet := Some sh, range_ref := Some r, sourceCell := Some src,
        lastRow := Some n, fillDown := Some True\<rparr>"

text \<open>Scenarios A and B of the specification.\<close>

definition scenarioA :: "StepAction list" where
  "scenarioA =
     [mkStep 1 (createSheet ''Summary''),
      mkStep 2 (setFormula ''Summary'' ''B2'' ''=SUM(A1:A10)'')]"

definition scenarioB :: "StepAction list" where
  "scenarioB =
     [mkStep 1 (setValues ''Sheet1'' ''A1:B3'' [[''1'', ''2''], [''3'', ''4''], [''5'', ''6'']]),
      mkStep 2 (setFormula ''Sheet1'' ''C1'' ''=A1+B1'')]"

text \<open>
  A plan of three steps run against a document that answers every \<open>setFormula\<close> with
  "Error: invalid range" and every other action with "OK".
\<close>

definition haltingPlan :: ChatResponse where
  "haltingPlan =
     \<lparr>message_id = ''m1'', res_content = ''plan'',
      res_steps = Some
        [mkStep 1 (createSheet ''Summary''),
         mkStep 2 (setFormula ''Sheet1'' ''B2'' ''=SUM(A1:A10)''),
         mkStep 3 (createSheet ''Report'')]\<rparr>"

definition rangeRejectingBridge :: "unit bridge" where
  "rangeRejectingBridge d a =
     (if action_tag a = SetFormula then Returned ''Error: invalid range'' else Returned ''OK'', d)"

text \<open>
  The same answers, from a document that is the list of the actions the bridge has been
  called on so far.
\<close>

definition recordingBridge :: "SheetAction list bridge" where
  "recordingBridge calls a =
     (if action_tag a = SetFormula then Returned ''Error: invalid range'' else Returned ''OK'',
      calls @ [a])"

text \<open>A bridge that is not running inside Google Sheets, and one whose calls all fail.\<close>

definition unreachableBridge :: "unit bridge" where
  "unreachableBridge d a = (Unreachable, d)"

definition failingBridge :: "unit bridge" where
  "failingBridge d a = (Rejected ''timeout'', d)"

text \<open>A state with one executed plan whose undo is offered, and nothing suspended.\<close>

definition undoableMessage :: Message where
  "undoableMessage =
     \<lparr>msgId = ''m1'', role = Assistant, content = ''plan'',
      steps = Some [(mkStep 1 (createSheet ''Summary''))\<lparr>st_status := Some Done, st_result := Some ''OK''\<rparr>],
      undoInfo = Some \<lparr>sheetsToDelete = [''Summary''], cellsToClear = []\<rparr>,
      undone = False, clarificationAnswered = False\<rparr>"

definition undoableState :: UndoState where
  "undoableState = \<lparr>messages = [undoableMessage], tasks = [], undoCalls = []\<rparr>"

section \<open>Properties of buildUndoInfo\<close>

lemma createdNames_Nil: "createdNames [] = []"
  by (simp add: createdNames_def)

lemma createdNames_Cons:
  "createdNames (s # sts) =
     (if isCreate (action s) then the (name (action s)) # createdNames sts else createdNames sts)"
  by (simp add: createdNames_def)

lemma buildUndoLoop_sheets:
  "sheetsToDelete (buildUndoLoop sts sd cc) = sd @ createdNames sts"
  by (induction sts arbitrary: sd cc)
     (simp_all add: createdNames_Nil createdNames_Cons isCreate_def Let_def)

lemma upt_shift: "[0..<Suc n] = 0 # map Suc [0..<n]"
  by (simp add: upt_conv_Cons map_Suc_upt del: upt_Suc)

lemma keptWrite_Suc:
  "keptWrite pre (s # sts) (Suc i) =
     keptWrite (pre \<union> (if isCreate (action s) then {the (name (action s))} else {})) sts i"
  by (simp add: keptWrite_def createdNames_Cons split: option.splits)

lemma filter_keptWrite_shift:
  "filter (keptWrite pre (s # sts)) (map Suc xs) =
     map Suc (filter (keptWrite (pre \<union> (if isCreate (action s) then {the (name (action s))} else {})) sts) xs)"
  by (induction xs) (simp_all add: keptWrite_Suc del: Un_insert_right)

lemma keptWrite_0:
  "keptWrite pre (s # sts) 0 =
     (case trackedWrite (action s) of None \<Rightarrow> False | Some e \<Rightarrow> fst e \<notin> pre)"
  by (simp add: keptWrite_def createdNames_Nil split: option.splits)

lemma buildUndoLoop_cells:
  "cellsToClear (buildUndoLoop sts sd cc) =
     cc @ map (\<lambda>i. the (trackedWrite (action (sts ! i))))
            (filter (keptWrite (set sd) sts) [0..<length sts])"
proof (induction sts arbitrary: sd cc)
  case Nil
  show ?case by simp
next
  case (Cons s sts)
  have len: "[0..<length (s # sts)] = 0 # map Suc [0..<length sts]"
    using upt_shift [of "length sts"] by simp
  show ?case
    unfolding len
    apply (simp only: buildUndoLoop.simps Let_def filter.simps filter_keptWrite_shift keptWrite_0)
    apply (auto simp add: Cons.IH trackedWrite_def isCreate_def comp_def)
    done
qed

text \<open>A step whose action is of an untracked kind does not change the result.\<close>

lemma buildUndoLoop_skip:
  assumes "action_tag (action s) \<noteq> CreateSheet" "action_tag (action s) \<noteq> SetFormula"
    "action_tag (action s) \<noteq> SetValues"
  shows "buildUndoLoop (s # sts) sd cc = buildUndoLoop sts sd cc"
  using assms by (simp add: Let_def)

lemma buildUndoLoop_filter_tag:
  assumes "t \<noteq> CreateSheet" "t \<noteq> SetFormula" "t \<noteq> SetValues"
  shows "buildUndoLoop (filter (\<lambda>s. action_tag (action s) \<noteq> t) sts) sd cc = buildUndoLoop sts sd cc"
proof (induction sts arbitrary: sd cc)
  case Nil
  show ?case by simp
next
  case (Cons s sts)
  show ?case
  proof (cases "action_tag (action s) = t")
    case True
    with assms have "buildUndoLoop (s # sts) sd cc = buildUndoLoop sts sd cc"
      by (intro buildUndoLoop_skip) simp_all
    with True Cons.IH show ?thesis by simp
  next
    case False
    with Cons.IH show ?thesis by (simp add: Let_def)
  qed
qed

lemma buildUndoLoop_append:
  "buildUndoLoop (xs @ ys) sd cc =
     buildUndoLoop ys (sheetsToDelete (buildUndoLoop xs sd cc)) (cellsToClear (buildUndoLoop xs sd cc))"
  by (induction xs arbitrary: sd cc) (simp_all add: Let_def)

lemma buildUndoLoop_subsumed:
  assumes "trackedWrite (action s) = Some e" "fst e \<in> set sd"
  shows "buildUndoLoop (s # sts) sd cc = buildUndoLoop sts sd cc"
  using assms by (auto simp add: trackedWrite_def Let_def split: if_splits)

lemma createdNames_append: "createdNames (xs @ ys) = createdNames xs @ createdNames ys"
  by (simp add: createdNames_def)

lemma createdNames_split:
  assumes "i < length sts" "trackedWrite (action (sts ! i)) = Some e"
  shows "set (createdNames sts) = set (createdNames (take i sts)) \<union> set (createdNames (drop (Suc i) sts))"
proof -
  from assms(2) have nc: "\<not> isCreate (action (sts ! i))"
    by (auto simp add: trackedWrite_def isCreate_def split: if_splits)
  from assms(1) have "sts = take i sts @ sts ! i # drop (Suc i) sts"
    by (simp add: id_take_nth_drop)
  then have "createdNames sts = createdNames (take i sts) @ createdNames (sts ! i # drop (Suc i) sts)"
    using createdNames_append by metis
  with nc show ?thesis by (simp add: createdNames_Cons)
qed

lemmas example_defs =
  buildUndoInfo_def mkStep_def createSheet_def setFormula_def setValues_def setValue_def
  autoFillDown_def emptyAction_def truthy_def

section \<open>Properties of executeSteps\<close>

lemma mapIdx_nth: "j < length xs \<Longrightarrow> mapIdx f xs ! j = f (xs ! j) j"
  by (simp add: mapIdx_def)

lemma mapIdx_update:
  "mapIdx (\<lambda>s idx. if idx = i then f s else s) xs = (if i < length xs then xs[i := f (xs ! i)] else xs)"
  by (rule nth_equalityI) (auto simp: mapIdx_nth nth_list_update mapIdx_def)

lemma updateStepOf_hit:
  "msgId m = mid \<Longrightarrow> steps m = Some ss \<Longrightarrow>
   updateStepOf mid i f m = m\<lparr>steps := Some (if i < length ss then ss[i := f (ss ! i)] else ss)\<rparr>"
  by (simp add: updateStepOf_def mapIdx_update)

lemma executeOne_eq:
  assumes "executeStepAction gas d (action st) = (r, d')"
  shows "executeOne gas mid i st msgs d =
     (map (\<lambda>m. updateStepOf mid i (\<lambda>s. s\<lparr>st_status := Some (classify r), st_result := Some r\<rparr>)
              (updateStepOf mid i (\<lambda>s. s\<lparr>st_status := Some Executing\<rparr>) m)) msgs,
      d', classify r)"
  using assms by (simp add: executeOne_def Let_def comp_def classify_def)

lemma updateStepOf_twice:
  assumes "msgId m = mid" "steps m = Some ss" "i < length ss"
  shows "updateStepOf mid i (\<lambda>s. s\<lparr>st_status := Some status, st_result := Some r\<rparr>)
           (updateStepOf mid i (\<lambda>s. s\<lparr>st_status := Some Executing\<rparr>) m)
       = m\<lparr>steps := Some (ss[i := (ss ! i)\<lparr>st_status := Some status, st_result := Some r\<rparr>])\<rparr>"
  using assms by (simp add: updateStepOf_hit)

lemma executeOne_nth:
  assumes "executeStepAction gas d (action st) = (r, d')"
    and "k < length msgs" "msgId (msgs ! k) = mid" "steps (msgs ! k) = Some ss" "i < length ss"
  shows "fst (executeOne gas mid i st msgs d) ! k =
     (msgs ! k)\<lparr>steps := Some (ss[i := (ss ! i)\<lparr>st_status := Some (classify r), st_result := Some r\<rparr>])\<rparr>"
  using assms by (simp add: executeOne_eq updateStepOf_twice)

lemma executeOne_last:
  assumes "executeStepAction gas d (action st) = (r, d')"
    and "msgs \<noteq> []" "msgId (last msgs) = mid" "steps (last msgs) = Some ss" "i < length ss"
    and "executeOne gas mid i st msgs d = (msgs2, d2, status)"
  shows "msgs2 \<noteq> [] \<and> d2 = d' \<and> status = classify r \<and>
     last msgs2 = (last msgs)\<lparr>steps := Some (ss[i := (ss ! i)\<lparr>st_status := Some (classify r), st_result := Some r\<rparr>])\<rparr>"
  using assms by (auto simp add: executeOne_eq last_map updateStepOf_twice)

lemma executeStepAction_snd: "snd (executeStepAction gas d a) = snd (gas d a)"
proof (cases "gas d a")
  case (Pair reply d')
  then show ?thesis
    by (cases reply) (simp_all add: executeStepAction_def executeSheetAction_def)
qed

lemma executeLoop_shape:
  assumes "msgs \<noteq> []" "msgId (last msgs) = mid" "steps (last msgs) = Some ss"
    and "map st_status ss = replicate i (Some Done) @ replicate (length rest) (Some Pending)"
    and "executeLoop gas mid rest i msgs d sc ec = (msgs', d', sc', ec')"
  shows "\<exists>ss' k. k \<le> length rest \<and> msgs' \<noteq> [] \<and>
           last msgs' = (last msgs)\<lparr>steps := Some ss'\<rparr> \<and>
           map action ss' = map action ss \<and>
           map st_status ss' = replicate (i + k) (Some Done) @
              (if k = length rest then [] else Some Error # replicate (length rest - Suc k) (Some Pending)) \<and>
           d' = docAfter gas d (map action (take (Suc k) rest)) \<and>
           sc' = sc + k \<and> ec' = (if k = length rest then ec else Suc ec)"
  using assms
proof (induction rest arbitrary: i msgs d sc ec ss)
  case Nil
  then show ?case by (cases "last msgs") auto
next
  case (Cons st rest)
  obtain r d1 where ex: "executeStepAction gas d (action st) = (r, d1)"
    by (cases "executeStepAction gas d (action st)")
  obtain msgs2 d2 status where one: "executeOne gas mid i st msgs d = (msgs2, d2, status)"
    by (cases "executeOne gas mid i st msgs d")
  have len: "length ss = i + Suc (length rest)"
    using arg_cong [OF Cons.prems(4), of length] by simp
  then have ilt: "i < length ss" by simp
  let ?ss2 = "ss[i := (ss ! i)\<lparr>st_status := Some (classify r), st_result := Some r\<rparr>]"
  from executeOne_last [OF ex Cons.prems(1,2,3) ilt one]
  have f: "msgs2 \<noteq> []" "d2 = d1" "status = classify r"
    "last msgs2 = (last msgs)\<lparr>steps := Some ?ss2\<rparr>" by simp_all
  from ex have d1: "d1 = snd (gas d (action st))"
    by (simp add: executeStepAction_snd [symmetric])
  have "map action ?ss2 = (map action ss)[i := map action ss ! i]"
    using ilt by (simp add: map_update)
  then have acts: "map action ?ss2 = map action ss" by simp
  have sts: "map st_status ?ss2 = replicate i (Some Done) @ Some (classify r) # replicate (length rest) (Some Pending)"
    using Cons.prems(4) ilt
    by (simp add: map_update list_update_append)
  show ?case
  proof (cases "classify r = Error")
    case True
    with one f Cons.prems(5) have "msgs' = msgs2" "d' = d1" "sc' = sc" "ec' = Suc ec" by simp_all
    with f acts sts True d1 show ?thesis
      by (intro exI [of _ ?ss2] exI [of _ 0]) simp
  next
    case False
    then have cd: "classify r = Done" by (simp add: classify_def split: if_splits)
    from False one f Cons.prems(5)
    have run: "executeLoop gas mid rest (Suc i) msgs2 d1 (Suc sc) ec = (msgs', d', sc', ec')" by simp
    have sts2: "map st_status ?ss2 = replicate (Suc i) (Some Done) @ replicate (length rest) (Some Pending)"
      using sts cd by (simp add: replicate_app_Cons_same)
    from f Cons.prems(2) have id2: "msgId (last msgs2) = mid" by simp
    from f have st2: "steps (last msgs2) = Some ?ss2" by simp
    from Cons.IH [OF f(1) id2 st2 sts2 run]
    obtain ss' k where k: "k \<le> length rest" "msgs' \<noteq> []"
      "last msgs' = (last msgs2)\<lparr>steps := Some ss'\<rparr>" "map action ss' = map action ?ss2"
      "map st_status ss' = replicate (Suc i + k) (Some Done) @
              (if k = length rest then [] else Some Error # replicate (length rest - Suc k) (Some Pending))"
      "d' = docAfter gas d1 (map action (take (Suc k) rest))"
      "sc' = Suc sc + k" "ec' = (if k = length rest then ec else Suc ec)"
      by blast
    with f acts d1 show ?thesis
      by (intro exI [of _ ss'] exI [of _ "Suc k"]) auto
  qed
qed

text \<open>The message that the plan branch appended, after the run.\<close>

lemma handleSendPlan_last:
  assumes "res_steps res = Some sts"
  shows "\<exists>ss' k. k \<le> length sts \<and>
           last (fst (handleSendPlan gas res msgs d)) =
             (assistantMessage res)\<lparr>steps := Some ss', undoInfo := attachedUndo sts\<rparr> \<and>
           map action ss' = map action sts \<and>
           map st_status ss' = replicate k (Some Done) @
              (if k = length sts then [] else Some Error # replicate (length sts - Suc k) (Some Pending)) \<and>
           snd (handleSendPlan gas res msgs d) =
             (docAfter gas d (map action (take (Suc k) sts)), k, if k = length sts then 0 else 1)"
proof -
  let ?am = "assistantMessage res"
  let ?pend = "map (\<lambda>s. s\<lparr>st_status := Some Pending\<rparr>) sts"
  obtain msgs' d' sc' ec' where
    run: "executeLoop gas (message_id res) sts 0 (msgs @ [?am]) d 0 0 = (msgs', d', sc', ec')"
    by (cases "executeLoop gas (message_id res) sts 0 (msgs @ [?am]) d 0 0") auto
  have a1: "msgs @ [?am] \<noteq> []" by simp
  have a2: "msgId (last (msgs @ [?am])) = message_id res" by (simp add: assistantMessage_def)
  have a3: "steps (last (msgs @ [?am])) = Some ?pend" using assms by (simp add: assistantMessage_def)
  have a4: "map st_status ?pend = replicate 0 (Some Done) @ replicate (length sts) (Some Pending)"
    by (simp add: comp_def map_replicate_const)
  from executeLoop_shape [OF a1 a2 a3 a4 run]
  obtain ss' k where k: "k \<le> length sts" "msgs' \<noteq> []"
    "last msgs' = ?am\<lparr>steps := Some ss'\<rparr>" "map action ss' = map action ?pend"
    "map st_status ss' = replicate k (Some Done) @
        (if k = length sts then [] else Some Error # replicate (length sts - Suc k) (Some Pending))"
    "d' = docAfter gas d (map action (take (Suc k) sts))" "sc' = k"
    "ec' = (if k = length sts then 0 else 1)"
    by auto
  have "map action ?pend = map action sts" by (simp add: comp_def)
  with k(4) have acts: "map action ss' = map action sts" by simp
  have idl: "msgId (last msgs') = message_id res" using k(3) by (simp add: assistantMessage_def)
  have fin: "last (fst (handleSendPlan gas res msgs d)) = ?am\<lparr>steps := Some ss', undoInfo := attachedUndo sts\<rparr>"
    using assms run k(2,3) idl
    by (simp add: handleSendPlan_def executeSteps_def attachedUndo_def Let_def last_map assistantMessage_def)
  have rest: "snd (handleSendPlan gas res msgs d) =
             (docAfter gas d (map action (take (Suc k) sts)), k, if k = length sts then 0 else 1)"
    using assms run k(6,7,8)
    by (simp add: handleSendPlan_def executeSteps_def Let_def)
  show ?thesis
    using k(1) fin acts k(5) rest by (intro exI [of _ ss'] exI [of _ k]) simp
qed

section \<open>The claims about the reversal log\<close>

text \<open>
  C3, as stated: for every step list the names in \<open>sheetsToDelete\<close> and the sheets of
  the entries of \<open>cellsToClear\<close> are disjoint, whatever the order of the \<open>createSheet\<close>
  and the write steps. It fails for a write into a sheet that a later step creates: the
  write is appended (the name is not yet in \<open>sheetsToDelete\<close>) and the name is added
  afterwards.
\<close>

theorem C3_counterexample:
  "''Data'' \<in> set (sheetsToDelete (buildUndoInfo
      [mkStep 1 (setFormula ''Data'' ''A1'' ''=1''), mkStep 2 (createSheet ''Data'')]))
   \<and> ''Data'' \<in> fst ` set (cellsToClear (buildUndoInfo
      [mkStep 1 (setFormula ''Data'' ''A1'' ''=1''), mkStep 2 (createSheet ''Data'')]))"
  by (simp add: example_defs)

text \<open>
  C3, amended: the names in \<open>sheetsToDelete\<close> and the sheets of the entries of
  \<open>cellsToClear\<close> are disjoint exactly for the step lists in which no write that is
  appended to \<open>cellsToClear\<close> is followed by a \<open>createSheet\<close> step of the sheet it
  writes into, that is, when the plan creates a sheet before it writes into it.
\<close>

theorem C3_disjoint_iff_created_first:
  "(set (sheetsToDelete (buildUndoInfo sts)) \<inter> fst ` set (cellsToClear (buildUndoInfo sts)) = {})
     = createdBeforeWritten sts"
proof -
  have sh: "sheetsToDelete (buildUndoInfo sts) = createdNames sts"
    by (simp add: buildUndoInfo_def buildUndoLoop_sheets)
  have ce: "cellsToClear (buildUndoInfo sts) =
       map (\<lambda>i. the (trackedWrite (action (sts ! i)))) (filter (keptWrite {} sts) [0..<length sts])"
    using buildUndoLoop_cells [of sts "[]" "[]"] by (simp add: buildUndoInfo_def)
  have key: "\<And>i. i < length sts \<Longrightarrow> keptWrite {} sts i \<Longrightarrow>
      (fst (the (trackedWrite (action (sts ! i)))) \<in> set (createdNames sts)) = createdLater sts i"
  proof -
    fix i assume i: "i < length sts" and k: "keptWrite {} sts i"
    then obtain e where e: "trackedWrite (action (sts ! i)) = Some e"
      and ne: "fst e \<notin> set (createdNames (take i sts))"
      by (auto simp add: keptWrite_def split: option.splits)
    from createdNames_split [OF i e] e ne
    show "(fst (the (trackedWrite (action (sts ! i)))) \<in> set (createdNames sts)) = createdLater sts i"
      by (simp add: createdLater_def)
  qed
  have "(set (createdNames sts) \<inter> fst ` set (cellsToClear (buildUndoInfo sts)) = {})
      = (\<forall>i < length sts. keptWrite {} sts i \<longrightarrow>
           fst (the (trackedWrite (action (sts ! i)))) \<notin> set (createdNames sts))"
    unfolding ce by (auto simp add: image_iff)
  also have "\<dots> = (\<forall>i < length sts. \<not> (keptWrite {} sts i \<and> createdLater sts i))"
    using key by blast
  also have "\<dots> = createdBeforeWritten sts"
    by (auto simp add: createdBeforeWritten_def list_all_iff)
  finally show ?thesis by (simp add: sh)
qed

theorem C3_witness:
  "createdBeforeWritten scenarioA
   \<and> set (sheetsToDelete (buildUndoInfo scenarioA))
       \<inter> fst ` set (cellsToClear (buildUndoInfo scenarioA)) = {}"
proof -
  have h: "createdBeforeWritten scenarioA"
    by (simp add: createdBeforeWritten_def keptWrite_def createdLater_def scenarioA_def
        trackedWrite_def createdNames_def isCreate_def example_defs)
  with C3_disjoint_iff_created_first [of scenarioA] show ?thesis by simp
qed

text \<open>
  C6, as stated: a done \<open>autoFillDown\<close> step whose sheet is not in \<open>sheetsToDelete\<close>
  has its (sheet, range) pair appended to \<open>cellsToClear\<close>, as a \<open>setValues\<close> step has.
  It fails: an \<open>autoFillDown\<close> step that names its sheet and its range leaves the log
  empty, where the \<open>setValues\<close> step on the same sheet and range gives one entry.
\<close>

theorem C6_counterexample:
  "action_tag (autoFillDown ''Sheet1'' ''A1:A10'' ''A1'' 10) = AutoFillDown
   \<and> sheet (autoFillDown ''Sheet1'' ''A1:A10'' ''A1'' 10) = Some ''Sheet1''
   \<and> range_ref (autoFillDown ''Sheet1'' ''A1:A10'' ''A1'' 10) = Some ''A1:A10''
   \<and> buildUndoInfo [(mkStep 1 (autoFillDown ''Sheet1'' ''A1:A10'' ''A1'' 10))\<lparr>st_status := Some Done\<rparr>]
       = \<lparr>sheetsToDelete = [], cellsToClear = []\<rparr>
   \<and> buildUndoInfo [(mkStep 1 (setValues ''Sheet1'' ''A1:A10'' []))\<lparr>st_status := Some Done\<rparr>]
       = \<lparr>sheetsToDelete = [], cellsToClear = [(''Sheet1'', ''A1:A10'')]\<rparr>"
  by (simp add: example_defs)

text \<open>
  C6, amended: \<open>autoFillDown\<close> steps contribute no entry to the undo information; it
  is the undo information of the step list without them.
\<close>

theorem C6_autoFillDown_untracked:
  "buildUndoInfo sts = buildUndoInfo (filter (\<lambda>s. action_tag (action s) \<noteq> AutoFillDown) sts)"
  by (simp add: buildUndoInfo_def buildUndoLoop_filter_tag)

theorem C6_witness:
  "buildUndoInfo
     [mkStep 1 (setValues ''Sheet1'' ''A1:A10'' []),
      mkStep 2 (autoFillDown ''Sheet1'' ''B1:B10'' ''B1'' 10)]
   = \<lparr>sheetsToDelete = [], cellsToClear = [(''Sheet1'', ''A1:A10'')]\<rparr>"
  using C6_autoFillDown_untracked
    [of "[mkStep 1 (setValues ''Sheet1'' ''A1:A10'' []),
          mkStep 2 (autoFillDown ''Sheet1'' ''B1:B10'' ''B1'' 10)]"]
  by (simp add: example_defs)

text \<open>
  C7: the names in \<open>sheetsToDelete\<close> are those of the \<open>createSheet\<close> steps, in step
  order; the entries of \<open>cellsToClear\<close> are the (sheet, location) pairs of the
  \<open>setFormula\<close> and \<open>setValues\<close> steps whose sheet no earlier step of the list creates,
  in step order; a write into a sheet that an earlier step creates contributes nothing
  (without that step the undo information is the same). After the run of a plan its
  message carries this undo information, when it is not empty. Scenario A gives
  \<open>{sheetsToDelete: ["Summary"], cellsToClear: []}\<close> and scenario B gives
  \<open>{sheetsToDelete: [], cellsToClear: [("Sheet1","A1:B3"), ("Sheet1","C1")]}\<close>.
\<close>

theorem C7_created_sheet_subsumes_writes:
  "sheetsToDelete (buildUndoInfo sts) = createdNames sts
   \<and> cellsToClear (buildUndoInfo sts) =
       map (\<lambda>i. the (trackedWrite (action (sts ! i)))) (filter (keptWrite {} sts) [0..<length sts])
   \<and> (i < length sts \<and> trackedWrite (action (sts ! i)) = Some e
        \<and> fst e \<in> set (createdNames (take i sts))
      \<longrightarrow> buildUndoInfo (take i sts @ drop (Suc i) sts) = buildUndoInfo sts)
   \<and> (res_steps res = Some sts
      \<longrightarrow> undoInfo (last (fst (handleSendPlan gas res msgs d))) = attachedUndo sts)
   \<and> buildUndoInfo scenarioA = \<lparr>sheetsToDelete = [''Summary''], cellsToClear = []\<rparr>
   \<and> buildUndoInfo scenarioB =
       \<lparr>sheetsToDelete = [], cellsToClear = [(''Sheet1'', ''A1:B3''), (''Sheet1'', ''C1'')]\<rparr>"
proof (intro conjI impI)
  show "sheetsToDelete (buildUndoInfo sts) = createdNames sts"
    by (simp add: buildUndoInfo_def buildUndoLoop_sheets)
  show "cellsToClear (buildUndoInfo sts) =
       map (\<lambda>i. the (trackedWrite (action (sts ! i)))) (filter (keptWrite {} sts) [0..<length sts])"
    using buildUndoLoop_cells [of sts "[]" "[]"] by (simp add: buildUndoInfo_def)
  show "buildUndoInfo scenarioA = \<lparr>sheetsToDelete = [''Summary''], cellsToClear = []\<rparr>"
    by (simp add: scenarioA_def example_defs)
  show "buildUndoInfo scenarioB =
       \<lparr>sheetsToDelete = [], cellsToClear = [(''Sheet1'', ''A1:B3''), (''Sheet1'', ''C1'')]\<rparr>"
    by (simp add: scenarioB_def example_defs)
next
  assume a: "i < length sts \<and> trackedWrite (action (sts ! i)) = Some e
        \<and> fst e \<in> set (createdNames (take i sts))"
  then have split: "sts = take i sts @ sts ! i # drop (Suc i) sts"
    by (simp add: id_take_nth_drop)
  let ?u = "buildUndoLoop (take i sts) [] []"
  from a have "fst e \<in> set (sheetsToDelete ?u)" by (simp add: buildUndoLoop_sheets)
  with a have "buildUndoLoop (sts ! i # drop (Suc i) sts) (sheetsToDelete ?u) (cellsToClear ?u)
      = buildUndoLoop (drop (Suc i) sts) (sheetsToDelete ?u) (cellsToClear ?u)"
    by (intro buildUndoLoop_subsumed [of _ e]) simp_all
  then have "buildUndoLoop (take i sts @ sts ! i # drop (Suc i) sts) [] []
      = buildUndoLoop (take i sts @ drop (Suc i) sts) [] []"
    by (simp only: buildUndoLoop_append)
  with split show "buildUndoInfo (take i sts @ drop (Suc i) sts) = buildUndoInfo sts"
    by (simp add: buildUndoInfo_def)
next
  assume r: "res_steps res = Some sts"
  from handleSendPlan_last [OF r, of gas msgs d]
  show "undoInfo (last (fst (handleSendPlan gas res msgs d))) = attachedUndo sts"
    by auto
qed

theorem C7_witness:
  "(1::nat) < length scenarioA
   \<and> trackedWrite (action (scenarioA ! 1)) = Some (''Summary'', ''B2'')
   \<and> ''Summary'' \<in> set (createdNames (take 1 scenarioA))
   \<and> buildUndoInfo (take 1 scenarioA @ drop (Suc 1) scenarioA) = buildUndoInfo scenarioA
   \<and> cellsToClear (buildUndoInfo scenarioA) = []"
  using C7_created_sheet_subsumes_writes [of scenarioA 1 "(''Summary'', ''B2'')"]
  by (simp add: scenarioA_def example_defs trackedWrite_def createdNames_def isCreate_def)

section \<open>The claims about the execution of a plan\<close>

lemma statuses_shape:
  assumes "map st_status ss = replicate k (Some Done) @
              (if k = n then [] else Some Error # replicate (n - Suc k) (Some Pending))"
    and "k \<le> n"
  shows "(k = n \<longrightarrow> allDone ss)
       \<and> (k \<noteq> n \<longrightarrow> haltedAt k ss \<and> length (filter (\<lambda>s. st_status s = Some Error) ss) = 1)"
proof (cases "k = n")
  case True
  with assms have "map st_status ss = replicate n (Some Done)" by simp
  then have "set (map st_status ss) \<subseteq> {Some Done}" by (auto simp add: set_replicate_conv_if)
  with True show ?thesis by (auto simp add: allDone_def)
next
  case False
  with assms have eq: "map st_status ss = replicate k (Some Done) @ Some Error # replicate (n - Suc k) (Some Pending)"
    by simp
  from arg_cong [OF eq, of length] have len: "length ss = k + Suc (n - Suc k)" by simp
  have nth: "\<And>j. j < length ss \<Longrightarrow> st_status (ss ! j) = (replicate k (Some Done) @ Some Error # replicate (n - Suc k) (Some Pending)) ! j"
    using eq by (metis nth_map)
  have h: "haltedAt k ss"
    unfolding haltedAt_def
  proof (intro conjI allI impI)
    show "k < length ss" using len by simp
    then show "st_status (ss ! k) = Some Error" using nth [of k] by (simp add: nth_append)
  next
    fix j assume "j < k"
    with len show "st_status (ss ! j) = Some Done" using nth [of j] by (simp add: nth_append)
  next
    fix j assume "j < length ss" "k < j"
    with len show "st_status (ss ! j) = Some Pending" using nth [of j]
      by (simp add: nth_append nth_Cons')
  qed
  have "length (filter (\<lambda>s. st_status s = Some Error) ss)
      = length (filter (\<lambda>x. x = Some Error) (map st_status ss))"
    by (simp add: filter_map comp_def)
  also have "\<dots> = 1" unfolding eq by simp
  finally show ?thesis using h False by simp
qed

lemmas run_defs =
  handleSendPlan_def executeSteps_def executeOne_def executeStepAction_def executeSheetAction_def
  assistantMessage_def updateStepOf_def mapIdx_def startsWith_def Let_def

text \<open>
  C2: after the run of a plan (a response with at least one step), the steps of the
  message that carries it are the steps of the plan, and either every step has status
  done, or exactly one step has status error, every step before it has status done and
  every step after it has status pending. Execution stops at the first error: when the
  loop body returns status error the loop returns at once, whatever steps remain, and
  the document after the run is the document after the bridge has been called on the
  actions of the steps up to and including the failed one (on all of them when every
  step is done) and on no other; the success count is the number of steps done and the
  error count is 0 or 1. This holds for every bridge, every document and every list of
  earlier messages.
\<close>

theorem C2_fail_fast:
  assumes "hasSteps res"
  shows "(\<exists>ss'. steps (last (fst (handleSendPlan gas res msgs d))) = Some ss'
           \<and> map action ss' = map action (the (res_steps res))
           \<and> ((allDone ss'
                 \<and> snd (handleSendPlan gas res msgs d) =
                     (docAfter gas d (map action (the (res_steps res))),
                      length (the (res_steps res)), 0))
               \<or> (\<exists>k. haltedAt k ss' \<and> length (filter (\<lambda>s. st_status s = Some Error) ss') = 1
                     \<and> snd (handleSendPlan gas res msgs d) =
                         (docAfter gas d (map action (take (Suc k) (the (res_steps res)))), k, 1))))
         \<and> (snd (snd (executeOne gas messageId i st ms doc)) = Error \<longrightarrow>
               executeLoop gas messageId (st # rest) i ms doc sc ec =
                 (fst (executeOne gas messageId i st ms doc),
                  fst (snd (executeOne gas messageId i st ms doc)), sc, Suc ec))"
proof (intro conjI impI)
  from assms obtain sts where sts: "res_steps res = Some sts"
    by (auto simp add: hasSteps_def split: option.splits)
  from handleSendPlan_last [OF sts, of gas msgs d]
  obtain ss' k where k: "k \<le> length sts"
    "last (fst (handleSendPlan gas res msgs d)) =
       (assistantMessage res)\<lparr>steps := Some ss', undoInfo := attachedUndo sts\<rparr>"
    "map action ss' = map action sts"
    "map st_status ss' = replicate k (Some Done) @
      (if k = length sts then [] else Some Error # replicate (length sts - Suc k) (Some Pending))"
    "snd (handleSendPlan gas res msgs d) =
       (docAfter gas d (map action (take (Suc k) sts)), k, if k = length sts then 0 else 1)"
    by blast
  note shape = statuses_shape [OF k(4) k(1)]
  have "(allDone ss'
          \<and> snd (handleSendPlan gas res msgs d) = (docAfter gas d (map action sts), length sts, 0))
        \<or> (\<exists>k. haltedAt k ss' \<and> length (filter (\<lambda>s. st_status s = Some Error) ss') = 1
              \<and> snd (handleSendPlan gas res msgs d) =
                  (docAfter gas d (map action (take (Suc k) sts)), k, 1))"
  proof (cases "k = length sts")
    case True
    with shape k(5) show ?thesis by simp
  next
    case False
    with shape k(5) have "haltedAt k ss' \<and> length (filter (\<lambda>s. st_status s = Some Error) ss') = 1
        \<and> snd (handleSendPlan gas res msgs d) = (docAfter gas d (map action (take (Suc k) sts)), k, 1)"
      by simp
    then show ?thesis by blast
  qed
  with k(2,3) sts
  show "\<exists>ss'. steps (last (fst (handleSendPlan gas res msgs d))) = Some ss'
           \<and> map action ss' = map action (the (res_steps res))
           \<and> ((allDone ss'
                 \<and> snd (handleSendPlan gas res msgs d) =
                     (docAfter gas d (map action (the (res_steps res))),
                      length (the (res_steps res)), 0))
               \<or> (\<exists>k. haltedAt k ss' \<and> length (filter (\<lambda>s. st_status s = Some Error) ss') = 1
                     \<and> snd (handleSendPlan gas res msgs d) =
                         (docAfter gas d (map action (take (Suc k) (the (res_steps res)))), k, 1)))"
    by simp
next
  assume "snd (snd (executeOne gas messageId i st ms doc)) = Error"
  then show "executeLoop gas messageId (st # rest) i ms doc sc ec =
                 (fst (executeOne gas messageId i st ms doc),
                  fst (snd (executeOne gas messageId i st ms doc)), sc, Suc ec)"
    by (cases "executeOne gas messageId i st ms doc") simp
qed

theorem C2_witness:
  "hasSteps haltingPlan
   \<and> (\<exists>ss'. steps (last (fst (handleSendPlan recordingBridge haltingPlan [] []))) = Some ss'
         \<and> map action ss' = map action (the (res_steps haltingPlan))
         \<and> ((allDone ss'
               \<and> snd (handleSendPlan recordingBridge haltingPlan [] []) =
                   (docAfter recordingBridge [] (map action (the (res_steps haltingPlan))),
                    length (the (res_steps haltingPlan)), 0))
             \<or> (\<exists>k. haltedAt k ss' \<and> length (filter (\<lambda>s. st_status s = Some Error) ss') = 1
                   \<and> snd (handleSendPlan recordingBridge haltingPlan [] []) =
                       (docAfter recordingBridge []
                          (map action (take (Suc k) (the (res_steps haltingPlan)))), k, 1))))
   \<and> snd (snd (executeOne recordingBridge ''m1'' 1
              (mkStep 2 (setFormula ''Sheet1'' ''B2'' ''=SUM(A1:A10)''))
              [assistantMessage haltingPlan] [])) = Error
   \<and> executeLoop recordingBridge ''m1''
        [mkStep 2 (setFormula ''Sheet1'' ''B2'' ''=SUM(A1:A10)''), mkStep 3 (createSheet ''Report'')]
        1 [assistantMessage haltingPlan] [] 1 0 =
       (fst (executeOne recordingBridge ''m1'' 1
              (mkStep 2 (setFormula ''Sheet1'' ''B2'' ''=SUM(A1:A10)''))
              [assistantMessage haltingPlan] []),
        fst (snd (executeOne recordingBridge ''m1'' 1
              (mkStep 2 (setFormula ''Sheet1'' ''B2'' ''=SUM(A1:A10)''))
              [assistantMessage haltingPlan] [])), 1, Suc 0)
   \<and> map st_status (the (steps (last (fst (handleSendPlan recordingBridge haltingPlan [] [])))))
       = [Some Done, Some Error, Some Pending]
   \<and> snd (handleSendPlan recordingBridge haltingPlan [] []) =
       ([createSheet ''Summary'', setFormula ''Sheet1'' ''B2'' ''=SUM(A1:A10)''], 1, 1)"
proof -
  have h: "hasSteps haltingPlan"
    by (simp add: hasSteps_def haltingPlan_def)
  have e: "snd (snd (executeOne recordingBridge ''m1'' 1
              (mkStep 2 (setFormula ''Sheet1'' ''B2'' ''=SUM(A1:A10)''))
              [assistantMessage haltingPlan] [])) = Error"
    by (simp add: run_defs recordingBridge_def example_defs)
  note inst = C2_fail_fast [OF h, where gas = recordingBridge and msgs = "[]" and d = "[]"
      and messageId = "''m1''" and i = 1
      and st = "mkStep 2 (setFormula ''Sheet1'' ''B2'' ''=SUM(A1:A10)'')"
      and ms = "[assistantMessage haltingPlan]" and doc = "[]"
      and rest = "[mkStep 3 (createSheet ''Report'')]" and sc = 1 and ec = 0]
  have run: "map st_status (the (steps (last (fst (handleSendPlan recordingBridge haltingPlan [] [])))))
       = [Some Done, Some Error, Some Pending]
     \<and> snd (handleSendPlan recordingBridge haltingPlan [] []) =
       ([createSheet ''Summary'', setFormula ''Sheet1'' ''B2'' ''=SUM(A1:A10)''], 1, 1)"
    by (simp add: run_defs haltingPlan_def recordingBridge_def example_defs)
  from inst e h run show ?thesis by blast
qed

text \<open>
  C1, evaluated on the code: the plan of three steps
  \<open>[createSheet("Summary"), setFormula("Sheet1","B2",...), createSheet("Report")]\<close>,
  whose second step is answered with "Error: invalid range", ends with the statuses
  done, error, pending. The undo information attached to the message is built from all
  three steps of the response: it holds the sheet "Report" of the step that was never
  attempted and the cell of the step that failed, and it is not the undo information of
  the first step alone.
\<close>

theorem C1_halted_plan_undo_covers_unexecuted_steps:
  "map st_status (the (steps (last (fst (handleSendPlan rangeRejectingBridge haltingPlan [] ())))))
       = [Some Done, Some Error, Some Pending]
   \<and> undoInfo (last (fst (handleSendPlan rangeRejectingBridge haltingPlan [] ())))
       = Some \<lparr>sheetsToDelete = [''Summary'', ''Report''], cellsToClear = [(''Sheet1'', ''B2'')]\<rparr>
   \<and> buildUndoInfo [mkStep 1 (createSheet ''Summary'')]
       = \<lparr>sheetsToDelete = [''Summary''], cellsToClear = []\<rparr>"
  by (simp add: run_defs haltingPlan_def rangeRejectingBridge_def example_defs)

text \<open>
  C5: for every step and every string \<open>r\<close> that \<open>executeStepAction\<close> returns for its
  action, the loop body yields status error when \<open>r\<close> starts with "Error" and status
  done for every other string, and in the message with the given id the step at the
  index of the loop has that status and \<open>r\<close> as its result.
\<close>

theorem C5_result_classified_and_stored:
  assumes "executeStepAction gas d (action st) = (r, d')"
    and "k < length msgs" "msgId (msgs ! k) = messageId" "steps (msgs ! k) = Some ss"
    and "i < length ss"
  shows "\<exists>msgs2 ss2. executeOne gas messageId i st msgs d =
             (msgs2, d', if startsWith r ''Error'' then Error else Done)
           \<and> steps (msgs2 ! k) = Some ss2
           \<and> st_status (ss2 ! i) = Some (if startsWith r ''Error'' then Error else Done)
           \<and> st_result (ss2 ! i) = Some r"
proof -
  let ?ss2 = "ss[i := (ss ! i)\<lparr>st_status := Some (classify r), st_result := Some r\<rparr>]"
  from executeOne_eq [OF assms(1), of messageId i msgs]
  obtain msgs2 where one: "executeOne gas messageId i st msgs d = (msgs2, d', classify r)"
    by blast
  from executeOne_nth [OF assms] one
  have "msgs2 ! k = (msgs ! k)\<lparr>steps := Some ?ss2\<rparr>" by simp
  then have "steps (msgs2 ! k) = Some ?ss2" by simp
  moreover have "st_status (?ss2 ! i) = Some (classify r)" "st_result (?ss2 ! i) = Some r"
    using assms(5) by simp_all
  ultimately show ?thesis using one by (auto simp add: classify_def)
qed

theorem C5_witness:
  "executeStepAction rangeRejectingBridge () (setFormula ''Sheet1'' ''B2'' ''=1'')
       = (''Error: invalid range'', ())
   \<and> (\<exists>msgs2 ss2.
         executeOne rangeRejectingBridge ''m1'' 1 (mkStep 2 (setFormula ''Sheet1'' ''B2'' ''=1''))
            [assistantMessage haltingPlan] () = (msgs2, (), Error)
       \<and> steps (msgs2 ! 0) = Some ss2
       \<and> st_status (ss2 ! 1) = Some Error
       \<and> st_result (ss2 ! 1) = Some ''Error: invalid range'')"
proof -
  have h1: "executeStepAction rangeRejectingBridge () (action (mkStep 2 (setFormula ''Sheet1'' ''B2'' ''=1'')))
       = (''Error: invalid range'', ())"
    by (simp add: run_defs rangeRejectingBridge_def example_defs)
  have h2: "0 < length [assistantMessage haltingPlan]" by simp
  have h3: "msgId ([assistantMessage haltingPlan] ! 0) = ''m1''"
    by (simp add: assistantMessage_def haltingPlan_def)
  have h4: "steps ([assistantMessage haltingPlan] ! 0)
      = Some (map (\<lambda>s. s\<lparr>st_status := Some Pending\<rparr>) (the (res_steps haltingPlan)))"
    by (simp add: assistantMessage_def)
  have h5: "1 < length (map (\<lambda>s. s\<lparr>st_status := Some Pending\<rparr>) (the (res_steps haltingPlan)))"
    by (simp add: haltingPlan_def)
  from C5_result_classified_and_stored [OF h1 h2 h3 h4 h5] h1
  show ?thesis by (simp add: startsWith_def mkStep_def)
qed

text \<open>
  C9: when the failure handler of the bridge fires with message \<open>m\<close>, or the bridge is
  not reachable, \<open>executeSheetAction\<close> resolves with "Action failed: " followed by
  \<open>m\<close>, or with "Not running in Google Sheets". Neither string starts with "Error", so
  the loop body gives status done, the step is stored as done, and the loop goes on with
  the next step, the success count increased.
\<close>

theorem C9_failure_strings_count_as_done:
  assumes "gas d (action st) = (reply, d')"
    and "reply = Rejected m \<or> reply = Unreachable"
  shows "executeSheetAction gas d (action st) =
           ((if reply = Unreachable then ''Not running in Google Sheets'' else ''Action failed: '' @ m), d')
         \<and> \<not> startsWith (fst (executeSheetAction gas d (action st))) ''Error''
         \<and> snd (snd (executeOne gas messageId i st msgs d)) = Done
         \<and> (k < length msgs \<and> msgId (msgs ! k) = messageId \<and> steps (msgs ! k) = Some ss \<and> i < length ss
              \<longrightarrow> st_status (the (steps (fst (executeOne gas messageId i st msgs d) ! k)) ! i) = Some Done)
         \<and> executeLoop gas messageId (st # rest) i msgs d sc ec =
             executeLoop gas messageId rest (Suc i) (fst (executeOne gas messageId i st msgs d)) d' (Suc sc) ec"
proof -
  let ?r = "if reply = Unreachable then ''Not running in Google Sheets'' else ''Action failed: '' @ m"
  from assms have ex: "executeSheetAction gas d (action st) = (?r, d')"
    by (auto simp add: executeSheetAction_def)
  then have ex': "executeStepAction gas d (action st) = (?r, d')"
    by (simp add: executeStepAction_def)
  have ns: "\<not> startsWith ?r ''Error''" by (simp add: startsWith_def)
  then have cl: "classify ?r = Done" by (simp add: classify_def)
  from executeOne_eq [OF ex', of messageId i msgs] cl
  have one: "snd (executeOne gas messageId i st msgs d) = (d', Done)" by simp
  have stored: "k < length msgs \<and> msgId (msgs ! k) = messageId \<and> steps (msgs ! k) = Some ss \<and> i < length ss
        \<longrightarrow> st_status (the (steps (fst (executeOne gas messageId i st msgs d) ! k)) ! i) = Some Done"
    using executeOne_nth [OF ex', of k msgs messageId ss i] cl by auto
  have loop: "executeLoop gas messageId (st # rest) i msgs d sc ec =
             executeLoop gas messageId rest (Suc i) (fst (executeOne gas messageId i st msgs d)) d' (Suc sc) ec"
    using one by (cases "executeOne gas messageId i st msgs d") simp
  from ex ns one stored loop show ?thesis by simp
qed

theorem C9_witness:
  "failingBridge () (action (mkStep 1 (createSheet ''Summary''))) = (Rejected ''timeout'', ())
   \<and> executeSheetAction failingBridge () (action (mkStep 1 (createSheet ''Summary'')))
       = (''Action failed: timeout'', ())
   \<and> map st_status (the (steps (last (fst (handleSendPlan failingBridge haltingPlan [] ())))))
       = [Some Done, Some Done, Some Done]
   \<and> map st_status (the (steps (last (fst (handleSendPlan unreachableBridge haltingPlan [] ())))))
       = [Some Done, Some Done, Some Done]"
proof -
  have h: "failingBridge () (action (mkStep 1 (createSheet ''Summary''))) = (Rejected ''timeout'', ())"
    by (simp add: failingBridge_def)
  from C9_failure_strings_count_as_done
    [where gas = failingBridge and d = "()" and st = "mkStep 1 (createSheet ''Summary'')"
       and reply = "Rejected ''timeout''" and d' = "()" and m = "''timeout''"] h
  have "executeSheetAction failingBridge () (action (mkStep 1 (createSheet ''Summary'')))
       = (''Action failed: timeout'', ())" by simp
  moreover have "map st_status (the (steps (last (fst (handleSendPlan failingBridge haltingPlan [] ())))))
       = [Some Done, Some Done, Some Done]"
    by (simp add: run_defs haltingPlan_def failingBridge_def example_defs)
  moreover have "map st_status (the (steps (last (fst (handleSendPlan unreachableBridge haltingPlan [] ())))))
       = [Some Done, Some Done, Some Done]"
    by (simp add: run_defs haltingPlan_def unreachableBridge_def example_defs)
  ultimately show ?thesis using h by simp
qed

text \<open>
  C10: steps whose action is \<open>setValue\<close> contribute no entry to the undo information:
  it is the undo information of the step list without them. For a plan of \<open>setValue\<close>
  steps only it is empty, \<open>executeSteps\<close> attaches nothing to the message, and the Undo
  button is not rendered for it.
\<close>

theorem C10_setValue_untracked:
  "buildUndoInfo sts = buildUndoInfo (filter (\<lambda>s. action_tag (action s) \<noteq> SetValue) sts)
   \<and> ((\<forall>s \<in> set sts. action_tag (action s) = SetValue) \<longrightarrow>
        buildUndoInfo sts = \<lparr>sheetsToDelete = [], cellsToClear = []\<rparr>
        \<and> (res_steps res = Some sts \<longrightarrow>
             undoInfo (last (fst (handleSendPlan gas res msgs d))) = None
             \<and> \<not> undoButtonShown (last (fst (handleSendPlan gas res msgs d)))))"
proof (intro conjI impI)
  show f: "buildUndoInfo sts = buildUndoInfo (filter (\<lambda>s. action_tag (action s) \<noteq> SetValue) sts)"
    by (simp add: buildUndoInfo_def buildUndoLoop_filter_tag)
  assume all: "\<forall>s \<in> set sts. action_tag (action s) = SetValue"
  then have "filter (\<lambda>s. action_tag (action s) \<noteq> SetValue) sts = []" by (simp add: filter_empty_conv)
  with f show e: "buildUndoInfo sts = \<lparr>sheetsToDelete = [], cellsToClear = []\<rparr>"
    by (simp add: buildUndoInfo_def)
  assume r: "res_steps res = Some sts"
  from handleSendPlan_last [OF r, of gas msgs d] e
  show u: "undoInfo (last (fst (handleSendPlan gas res msgs d))) = None"
    by (auto simp add: attachedUndo_def)
  then show "\<not> undoButtonShown (last (fst (handleSendPlan gas res msgs d)))"
    by (simp add: undoButtonShown_def)
qed

theorem C10_witness:
  "action_tag (action (mkStep 1 (setValue ''Sheet1'' ''A1'' ''42''))) = SetValue
   \<and> buildUndoInfo [mkStep 1 (setValue ''Sheet1'' ''A1'' ''42'')]
        = \<lparr>sheetsToDelete = [], cellsToClear = []\<rparr>
   \<and> undoInfo (last (fst (handleSendPlan rangeRejectingBridge
        \<lparr>message_id = ''m2'', res_content = ''set'',
         res_steps = Some [mkStep 1 (setValue ''Sheet1'' ''A1'' ''42'')]\<rparr> [] ()))) = None
   \<and> \<not> undoButtonShown (last (fst (handleSendPlan rangeRejectingBridge
        \<lparr>message_id = ''m2'', res_content = ''set'',
         res_steps = Some [mkStep 1 (setValue ''Sheet1'' ''A1'' ''42'')]\<rparr> [] ())))"
proof -
  have h: "\<forall>s \<in> set [mkStep 1 (setValue ''Sheet1'' ''A1'' ''42'')]. action_tag (action s) = SetValue"
    by (simp add: example_defs)
  have r: "res_steps \<lparr>message_id = ''m2'', res_content = ''set'',
         res_steps = Some [mkStep 1 (setValue ''Sheet1'' ''A1'' ''42'')]\<rparr>
       = Some [mkStep 1 (setValue ''Sheet1'' ''A1'' ''42'')]" by simp
  have t: "action_tag (action (mkStep 1 (setValue ''Sheet1'' ''A1'' ''42''))) = SetValue"
    by (simp add: example_defs)
  from C10_setValue_untracked [of "[mkStep 1 (setValue ''Sheet1'' ''A1'' ''42'')]"
      "\<lparr>message_id = ''m2'', res_content = ''set'',
         res_steps = Some [mkStep 1 (setValue ''Sheet1'' ''A1'' ''42'')]\<rparr>" rangeRejectingBridge "[]" "()"] h r t
  show ?thesis by blast
qed

section \<open>Properties of handleUndo\<close>

lemma find_map_undone:
  "find (\<lambda>m. msgId m = mid) (map (\<lambda>m. if msgId m = mid' then m\<lparr>undone := True\<rparr> else m) ms)
     = map_option (\<lambda>m. if msgId m = mid' then m\<lparr>undone := True\<rparr> else m) (find (\<lambda>m. msgId m = mid) ms)"
  by (induction ms) auto

lemma find_append_Some: "find P xs = Some x \<Longrightarrow> find P (xs @ ys) = Some x"
  by (induction xs) (auto split: if_splits)

text \<open>What each event does to the messages and to the log of calls.\<close>

lemma clicked_unfold:
  "handleUndo (UndoClicked mid) s =
     (case find (\<lambda>m. msgId m = mid) (messages s) of
        None \<Rightarrow> s
      | Some msg \<Rightarrow>
          (case undoInfo msg of
             None \<Rightarrow> s
           | Some info \<Rightarrow>
               if undone msg then s
               else s\<lparr>tasks := tasks s @ [AwaitingUndo mid],
                      undoCalls := undoCalls s @ [(mid, info)]\<rparr>))"
  by simp

lemma clicked_messages: "messages (handleUndo (UndoClicked mid) s) = messages s"
proof (cases "find (\<lambda>m. msgId m = mid) (messages s)")
  case None
  then show ?thesis by simp
next
  case (Some msg)
  then show ?thesis by (cases "undoInfo msg") simp_all
qed

lemma clicked_calls_gated:
  assumes "gated mid s"
  shows "undoCalls (handleUndo (UndoClicked mid) s) = undoCalls s"
proof (cases "find (\<lambda>m. msgId m = mid) (messages s)")
  case None
  then show ?thesis by simp
next
  case (Some msg)
  with assms have "undone msg" by (simp add: gated_def)
  with Some show ?thesis by (cases "undoInfo msg") simp_all
qed

lemma clicked_calls_other:
  assumes "mid' \<noteq> mid"
  shows "callsFor mid (handleUndo (UndoClicked mid') s) = callsFor mid s"
proof (cases "find (\<lambda>m. msgId m = mid') (messages s)")
  case None
  then show ?thesis by simp
next
  case (Some msg)
  with assms show ?thesis by (cases "undoInfo msg") (simp_all add: callsFor_def)
qed

lemma replied_messages:
  "messages (handleUndo (UndoReplied k reply) s) =
     (if k < length (tasks s) then
        (case tasks s ! k of
           AwaitingUndo mid \<Rightarrow> map (\<lambda>m. if msgId m = mid then m\<lparr>undone := True\<rparr> else m) (messages s)
         | _ \<Rightarrow> messages s)
      else messages s)"
  by (cases "tasks s ! k") simp_all

lemma replied_calls: "undoCalls (handleUndo (UndoReplied k reply) s) = undoCalls s"
  by (cases "tasks s ! k") simp_all

lemma sheets_messages:
  "messages (handleUndo (SheetsReplied k newId) s) =
     (if k < length (tasks s) then
        (case tasks s ! k of
           AwaitingSheets result \<Rightarrow> messages s @ [undoMessage newId result]
         | _ \<Rightarrow> messages s)
      else messages s)"
  by (cases "tasks s ! k") simp_all

lemma sheets_calls: "undoCalls (handleUndo (SheetsReplied k newId) s) = undoCalls s"
  by (cases "tasks s ! k") simp_all

lemma gated_map:
  assumes "gated mid s"
  shows "gated mid (s\<lparr>messages := map (\<lambda>m. if msgId m = mid' then m\<lparr>undone := True\<rparr> else m) (messages s)\<rparr>)"
  using assms by (auto simp add: gated_def find_map_undone split: option.splits)

lemma gated_messages_cong: "messages s' = messages s \<Longrightarrow> gated mid s' = gated mid s"
  by (simp add: gated_def)

lemma handleUndo_gated:
  assumes "gated mid s"
  shows "gated mid (handleUndo e s) \<and> callsFor mid (handleUndo e s) = callsFor mid s"
proof (cases e)
  case (UndoClicked mid')
  have g: "gated mid (handleUndo (UndoClicked mid') s)"
    using assms gated_messages_cong [OF clicked_messages] by blast
  have "callsFor mid (handleUndo (UndoClicked mid') s) = callsFor mid s"
  proof (cases "mid' = mid")
    case True
    with clicked_calls_gated [OF assms] show ?thesis by (simp only: callsFor_def)
  next
    case False
    then show ?thesis by (rule clicked_calls_other)
  qed
  with g UndoClicked show ?thesis by (simp only:)
next
  case (UndoReplied k reply)
  have c: "callsFor mid (handleUndo (UndoReplied k reply) s) = callsFor mid s"
    by (simp only: callsFor_def replied_calls)
  have "gated mid (handleUndo (UndoReplied k reply) s)"
  proof (cases "k < length (tasks s)")
    case True
    show ?thesis
    proof (cases "tasks s ! k")
      case (AwaitingUndo mid')
      with True have "messages (handleUndo (UndoReplied k reply) s)
          = map (\<lambda>m. if msgId m = mid' then m\<lparr>undone := True\<rparr> else m) (messages s)"
        by (simp only: replied_messages) simp
      with assms show ?thesis
        by (auto simp add: gated_def find_map_undone split: option.splits)
    next
      case (AwaitingSheets r)
      with True have "messages (handleUndo (UndoReplied k reply) s) = messages s"
        by (simp only: replied_messages) simp
      with assms gated_messages_cong show ?thesis by blast
    next
      case Finished
      with True have "messages (handleUndo (UndoReplied k reply) s) = messages s"
        by (simp only: replied_messages) simp
      with assms gated_messages_cong show ?thesis by blast
    qed
  next
    case False
    then have "messages (handleUndo (UndoReplied k reply) s) = messages s"
      by (simp only: replied_messages) simp
    with assms gated_messages_cong show ?thesis by blast
  qed
  with c UndoReplied show ?thesis by (simp only:)
next
  case (SheetsReplied k newId)
  have c: "callsFor mid (handleUndo (SheetsReplied k newId) s) = callsFor mid s"
    by (simp only: callsFor_def sheets_calls)
  have "messages (handleUndo (SheetsReplied k newId) s) = messages s
      \<or> (\<exists>r. messages (handleUndo (SheetsReplied k newId) s) = messages s @ [undoMessage newId r])"
    by (simp only: sheets_messages) (auto split: UndoTask.splits)
  with assms have "gated mid (handleUndo (SheetsReplied k newId) s)"
    by (auto simp add: gated_def find_append_Some split: option.splits)
  with c SheetsReplied show ?thesis by (simp only:)
qed

lemma runUndo_Nil: "runUndo [] s = s"
  by (simp add: runUndo_def)

lemma runUndo_Cons: "runUndo (e # evs) s = runUndo evs (handleUndo e s)"
  by (simp add: runUndo_def)

text \<open>
  Once the guard is closed for a message id, no sequence of events adds a call of
  \<open>undoSheetActionsGAS\<close> for that id, and the guard stays closed.
\<close>

lemma undone_gates_calls:
  assumes "gated mid s"
  shows "gated mid (runUndo evs s) \<and> callsFor mid (runUndo evs s) = callsFor mid s"
  using assms
proof (induction evs arbitrary: s)
  case Nil
  then show ?case by (simp add: runUndo_Nil)
next
  case (Cons e evs)
  from handleUndo_gated [OF Cons.prems, of e] Cons.IH [of "handleUndo e s"]
  show ?case by (simp add: runUndo_Cons)
qed



declare handleUndo.simps [simp del]





text \<open>
  A run of the handler that waits for the reply to its undo call has made that call:
  when this holds of a state, it holds after every event, so it holds in every state
  reached from one in which no run is suspended.
\<close>

lemma clicked_tasks:
  "(tasks (handleUndo (UndoClicked mid) s) = tasks s
      \<and> undoCalls (handleUndo (UndoClicked mid) s) = undoCalls s)
   \<or> (\<exists>info. tasks (handleUndo (UndoClicked mid) s) = tasks s @ [AwaitingUndo mid]
          \<and> undoCalls (handleUndo (UndoClicked mid) s) = undoCalls s @ [(mid, info)])"
proof (cases "find (\<lambda>m. msgId m = mid) (messages s)")
  case None
  then show ?thesis by (simp add: handleUndo.simps)
next
  case (Some msg)
  show ?thesis
  proof (cases "undoInfo msg")
    case None
    with Some show ?thesis by (simp add: handleUndo.simps)
  next
    case (Some info)
    with \<open>find (\<lambda>m. msgId m = mid) (messages s) = Some msg\<close> show ?thesis
      by (cases "undone msg") (simp_all add: handleUndo.simps)
  qed
qed

lemma replied_tasks:
  "tasks (handleUndo (UndoReplied k reply) s) = tasks s
   \<or> (\<exists>r. tasks (handleUndo (UndoReplied k reply) s) = (tasks s)[k := AwaitingSheets r])"
  by (cases "tasks s ! k") (auto simp add: handleUndo.simps)

lemma sheets_tasks:
  "tasks (handleUndo (SheetsReplied k newId) s) = tasks s
   \<or> tasks (handleUndo (SheetsReplied k newId) s) = (tasks s)[k := Finished]"
  by (cases "tasks s ! k") (simp_all add: handleUndo.simps)

lemma handleUndo_waiting_called:
  assumes "\<forall>mid. AwaitingUndo mid \<in> set (tasks s) \<longrightarrow> mid \<in> fst ` set (undoCalls s)"
  shows "\<forall>mid. AwaitingUndo mid \<in> set (tasks (handleUndo e s))
           \<longrightarrow> mid \<in> fst ` set (undoCalls (handleUndo e s))"
proof (intro allI impI)
  fix mid
  assume w: "AwaitingUndo mid \<in> set (tasks (handleUndo e s))"
  show "mid \<in> fst ` set (undoCalls (handleUndo e s))"
  proof (cases e)
    case (UndoClicked mid')
    from clicked_tasks [of mid' s]
    consider (same) "tasks (handleUndo (UndoClicked mid') s) = tasks s"
        "undoCalls (handleUndo (UndoClicked mid') s) = undoCalls s"
      | (call) info where "tasks (handleUndo (UndoClicked mid') s) = tasks s @ [AwaitingUndo mid']"
        "undoCalls (handleUndo (UndoClicked mid') s) = undoCalls s @ [(mid', info)]"
      by blast
    then show ?thesis
    proof cases
      case same
      with w assms show ?thesis unfolding UndoClicked by simp
    next
      case call
      from w have "AwaitingUndo mid \<in> set (tasks s) \<or> mid = mid'"
        unfolding UndoClicked call(1) by auto
      with assms have "mid \<in> fst ` set (undoCalls s) \<or> mid = mid'" by blast
      then show ?thesis unfolding UndoClicked call(2) by force
    qed
  next
    case (UndoReplied k reply)
    from replied_tasks [of k reply s] w
    have "AwaitingUndo mid \<in> set (tasks s)"
      unfolding UndoReplied using set_update_subset_insert [of "tasks s" k] by fastforce
    with assms show ?thesis unfolding UndoReplied by (simp only: replied_calls)
  next
    case (SheetsReplied k newId)
    from sheets_tasks [of k newId s] w
    have "AwaitingUndo mid \<in> set (tasks s)"
      unfolding SheetsReplied using set_update_subset_insert [of "tasks s" k] by fastforce
    with assms show ?thesis unfolding SheetsReplied by (simp only: sheets_calls)
  qed
qed

lemma runUndo_waiting_called:
  assumes "\<forall>mid. AwaitingUndo mid \<in> set (tasks s) \<longrightarrow> mid \<in> fst ` set (undoCalls s)"
  shows "\<forall>mid. AwaitingUndo mid \<in> set (tasks (runUndo evs s))
           \<longrightarrow> mid \<in> fst ` set (undoCalls (runUndo evs s))"
  using assms
proof (induction evs arbitrary: s)
  case Nil
  then show ?case by (simp add: runUndo_Nil)
next
  case (Cons e evs)
  from Cons.IH [OF handleUndo_waiting_called [OF Cons.prems, of e]]
  show ?case by (simp add: runUndo_Cons)
qed

lemmas undo_eval =
  runUndo_def handleUndo.simps undoableState_def undoableMessage_def undoSheetActionsGAS_def
  callsFor_def undoMessage_def

section \<open>The claims about undo\<close>

text \<open>
  C4, evaluated on the code: in a state with one message whose undo is offered, two
  clicks on its Undo control that are both handled before the bridge has answered the
  first call make two calls of \<open>undoSheetActionsGAS\<close> for that message, with the same
  undo information: the flag that the guard reads is set only when the reply arrives.
  A click that is handled after the reply makes no further call.
\<close>

theorem C4_second_click_before_reply_calls_again:
  "callsFor ''m1'' (runUndo [UndoClicked ''m1'', UndoClicked ''m1''] undoableState)
     = [(''m1'', \<lparr>sheetsToDelete = [''Summary''], cellsToClear = []\<rparr>),
        (''m1'', \<lparr>sheetsToDelete = [''Summary''], cellsToClear = []\<rparr>)]
   \<and> callsFor ''m1''
        (runUndo [UndoClicked ''m1'', UndoReplied 0 (Returned ''ok''), UndoClicked ''m1''] undoableState)
     = [(''m1'', \<lparr>sheetsToDelete = [''Summary''], cellsToClear = []\<rparr>)]"
  by (simp add: undo_eval)




end
